theory Spec2Isabelle
  imports Main "HOL-Library.Multiset"
begin

section \<open>Data model\<close>

text \<open>
  The routes of \<open>routes/api/posts.js\<close> work on two document collections, users and
  posts. An ObjectId is kept as the string its \<open>toString()\<close> gives: 24 lower-case
  hexadecimal digits.
\<close>

type_synonym object_id = string

text \<open>
  Modelled from the spec: the schemas \<open>models/User\<close> and \<open>models/Post\<close> are not part
  of the sources. The fields are the ones of the spec's data model (and the ones the
  routes read and write). Field names carry the document's name as a prefix, since the
  routes use \<open>user\<close>, \<open>name\<close>, \<open>avatar\<close>, \<open>text\<close> and \<open>date\<close> in several documents.
\<close>

record user =
  user_id :: object_id
  user_name :: string
  user_avatar :: string

record like =
  like_user :: object_id

record comment =
  comment_id :: object_id
  comment_user :: object_id
  comment_text :: string
  comment_name :: string
  comment_avatar :: string
  comment_date :: int

record post =
  post_id :: object_id
  post_user :: object_id
  post_text :: string
  post_name :: string
  post_avatar :: string
  likes :: "like list"
  comments :: "comment list"
  post_date :: int

record db =
  users :: "user list"
  posts :: "post list"

subsection \<open>Responses and exceptions\<close>

datatype body =
    Errors "string list"
  | Msg string
  | Send string
  | PostJson post
  | PostsJson "post list"
  | LikesJson "like list"
  | CommentsJson "comment list"

type_synonym response = "nat \<times> body"

text \<open>
  What a \<open>try\<close> block of a route can throw: the cast error of a lookup by a malformed
  id (\<open>err.kind == 'ObjectId'\<close>), and the type error of reading a property of \<open>null\<close>.
\<close>

datatype exn = CastError_ObjectId | TypeError

section \<open>The document store\<close>

text \<open>
  The cast of a route parameter to an ObjectId, as the ObjectId constructor behind
  \<open>Model.findById\<close> does it: a string of 24 hexadecimal digits is the id it spells,
  read without regard to case; a string of 12 characters is the id of these 12 bytes,
  each byte written as two hexadecimal digits; anything else is malformed.
\<close>

definition hexDigit :: "char \<Rightarrow> char option" where
  "hexDigit = map_of (zip ''0123456789abcdefABCDEF'' ''0123456789abcdefabcdef'')"

text \<open>The two digits of a byte; both indices are below 16.\<close>

definition hexByte :: "char \<Rightarrow> string" where
  "hexByte c = [''0123456789abcdef'' ! ((of_char c :: nat) div 16),
                ''0123456789abcdef'' ! ((of_char c :: nat) mod 16)]"

definition castObjectId :: "string \<Rightarrow> object_id option" where
  "castObjectId s =
     (if length s = 24 then those (map hexDigit s)
      else if length s = 12 then Some (concat (map hexByte s))
      else None)"

text \<open>\<open>Model.findById(id)\<close>: throws on a malformed id, else the document or \<open>null\<close>.\<close>

definition findById :: "('a \<Rightarrow> object_id) \<Rightarrow> 'a list \<Rightarrow> string \<Rightarrow> exn + 'a option" where
  "findById key coll ident =
     (case castObjectId ident of
        None \<Rightarrow> Inl CastError_ObjectId
      | Some oid \<Rightarrow> Inr (find (\<lambda>d. key d = oid) coll))"

text \<open>\<open>post.save()\<close> of a loaded post writes the document back under its id.\<close>

definition save :: "post \<Rightarrow> db \<Rightarrow> db" where
  "save p d = d\<lparr>posts := map (\<lambda>q. if post_id q = post_id p then p else q) (posts d)\<rparr>"

text \<open>\<open>newPost.save()\<close> of a new document adds it to the collection.\<close>

definition insert_post :: "post \<Rightarrow> db \<Rightarrow> db" where
  "insert_post p d = d\<lparr>posts := posts d @ [p]\<rparr>"

text \<open>\<open>post.remove()\<close> deletes the document with the post's id.\<close>

definition remove :: "post \<Rightarrow> db \<Rightarrow> db" where
  "remove p d = d\<lparr>posts := filter (\<lambda>q. post_id q \<noteq> post_id p) (posts d)\<rparr>"

text \<open>\<open>Post.find().sort({ date: -1 })\<close>: every post, by date descending.\<close>

definition find_sorted :: "db \<Rightarrow> post list" where
  "find_sorted d = sort_key (\<lambda>p. - post_date p) (posts d)"

section \<open>JavaScript array methods\<close>

text \<open>\<open>xs.indexOf(x)\<close>: the first position of \<open>x\<close>, or \<open>-1\<close>.\<close>

fun indexOf :: "'a list \<Rightarrow> 'a \<Rightarrow> int" where
  "indexOf [] x = -1"
| "indexOf (y # ys) x =
     (if y = x then 0 else (let i = indexOf ys x in if i < 0 then -1 else i + 1))"

text \<open>
  \<open>xs.splice(start, deleteCount)\<close>, as the array it leaves: a negative \<open>start\<close> counts
  from the end, so \<open>splice(-1, 1)\<close> removes the last element.
\<close>

definition splice :: "'a list \<Rightarrow> int \<Rightarrow> int \<Rightarrow> 'a list" where
  "splice xs start deleteCount =
     (let n = int (length xs);
          s = (if start < 0 then max (n + start) 0 else min start n);
          c = min (max deleteCount 0) (n - s)
      in take (nat s) xs @ drop (nat (s + c)) xs)"

text \<open>\<open>xs.find(P)\<close> is \<^const>\<open>find\<close>, \<open>xs.unshift(x)\<close> is \<open>x # xs\<close>.\<close>

section \<open>Validation\<close>

text \<open>
  \<open>check('text', 'Text is required').not().isEmpty()\<close>: the field of the request body,
  which may be absent, must not be the empty string.
\<close>

definition isEmpty :: "string option \<Rightarrow> bool" where
  "isEmpty t = (case t of None \<Rightarrow> True | Some s \<Rightarrow> s = [])"

text \<open>\<open>req.body.text\<close> of a request that passed the check.\<close>

definition body_text :: "string option \<Rightarrow> string" where
  "body_text t = (case t of None \<Rightarrow> [] | Some s \<Rightarrow> s)"

definition validation_errors :: response where
  "validation_errors = (400, Errors [''Text is required''])"

definition post_not_found :: response where
  "post_not_found = (400, Msg ''Post Not Found'')"

definition server_error :: response where
  "server_error = (500, Send ''Server Error'')"

text \<open>The \<open>catch\<close> block of the routes that take a post id.\<close>

definition catch_id :: "exn \<Rightarrow> response" where
  "catch_id e = (if e = CastError_ObjectId then post_not_found else server_error)"

section \<open>The routes\<close>

text \<open>
  Each route takes the caller's id (\<open>req.user.id\<close>, set by the auth middleware), its
  parameters and the store, and returns the response with the store it leaves.
\<close>

text \<open>
  \<open>POST api/posts\<close>. The id and the date of the new document are the ones the store
  gives it (a new ObjectId, \<open>Date.now\<close>), taken as arguments.
\<close>

definition create_post ::
  "object_id \<Rightarrow> string option \<Rightarrow> object_id \<Rightarrow> int \<Rightarrow> db \<Rightarrow> response \<times> db" where
  "create_post caller text new_id now d =
     (if isEmpty text then (validation_errors, d)
      else case findById user_id (users d) caller of
             Inl e \<Rightarrow> (server_error, d)
           | Inr None \<Rightarrow> (server_error, d)
           | Inr (Some u) \<Rightarrow>
               (let newPost = \<lparr>post_id = new_id, post_user = caller, post_text = body_text text,
                               post_name = user_name u, post_avatar = user_avatar u,
                               likes = [], comments = [], post_date = now\<rparr>
                in ((200, PostJson newPost), insert_post newPost d)))"

text \<open>\<open>GET api/posts\<close>. An array is never falsy, so the 400 branch is dead.\<close>

definition list_posts :: "db \<Rightarrow> response \<times> db" where
  "list_posts d = ((200, PostsJson (find_sorted d)), d)"

text \<open>\<open>GET api/posts/:id\<close>.\<close>

definition get_post :: "string \<Rightarrow> db \<Rightarrow> response \<times> db" where
  "get_post ident d =
     (case findById post_id (posts d) ident of
        Inl e \<Rightarrow> (catch_id e, d)
      | Inr None \<Rightarrow> (post_not_found, d)
      | Inr (Some p) \<Rightarrow> ((200, PostJson p), d))"

text \<open>\<open>DELETE api/posts/:id\<close>.\<close>

definition delete_post :: "object_id \<Rightarrow> string \<Rightarrow> db \<Rightarrow> response \<times> db" where
  "delete_post caller ident d =
     (case findById post_id (posts d) ident of
        Inl e \<Rightarrow> (catch_id e, d)
      | Inr None \<Rightarrow> (post_not_found, d)
      | Inr (Some p) \<Rightarrow>
          (if post_user p \<noteq> caller then ((401, Msg ''User Not Authorized''), d)
           else ((200, Msg ''Post Removed''), remove p d)))"

text \<open>\<open>PUT api/posts/like/:id\<close>.\<close>

definition like_post :: "object_id \<Rightarrow> string \<Rightarrow> db \<Rightarrow> response \<times> db" where
  "like_post caller ident d =
     (case findById post_id (posts d) ident of
        Inl e \<Rightarrow> (catch_id e, d)
      | Inr None \<Rightarrow> (post_not_found, d)
      | Inr (Some p) \<Rightarrow>
          (if length (filter (\<lambda>l. like_user l = caller) (likes p)) > 0
           then ((400, Msg ''Post Already Liked''), d)
           else (let p' = p\<lparr>likes := \<lparr>like_user = caller\<rparr> # likes p\<rparr>
                 in ((200, LikesJson (likes p')), save p' d))))"

text \<open>\<open>PUT api/posts/unlike/:id\<close>.\<close>

definition unlike_post :: "object_id \<Rightarrow> string \<Rightarrow> db \<Rightarrow> response \<times> db" where
  "unlike_post caller ident d =
     (case findById post_id (posts d) ident of
        Inl e \<Rightarrow> (catch_id e, d)
      | Inr None \<Rightarrow> (post_not_found, d)
      | Inr (Some p) \<Rightarrow>
          (if length (filter (\<lambda>l. like_user l = caller) (likes p)) = 0
           then ((400, Msg ''Post has not yet been liked''), d)
           else (let removeIndex = indexOf (map like_user (likes p)) caller;
                     p' = p\<lparr>likes := splice (likes p) removeIndex 1\<rparr>
                 in ((200, Msg ''Unlike Post''), save p' d))))"

text \<open>
  \<open>POST api/posts/comment/:id\<close>. The user is looked up before the post, and read
  (\<open>user.name\<close>) after the post was found. The id and the date of the new comment are
  the ones the store gives it, taken as arguments.
\<close>

definition add_comment ::
  "object_id \<Rightarrow> string \<Rightarrow> string option \<Rightarrow> object_id \<Rightarrow> int \<Rightarrow> db \<Rightarrow> response \<times> db" where
  "add_comment caller ident text new_id now d =
     (if isEmpty text then (validation_errors, d)
      else case findById user_id (users d) caller of
             Inl e \<Rightarrow> (catch_id e, d)
           | Inr u \<Rightarrow>
              (case findById post_id (posts d) ident of
                 Inl e \<Rightarrow> (catch_id e, d)
               | Inr None \<Rightarrow> (post_not_found, d)
               | Inr (Some p) \<Rightarrow>
                   (case u of
                      None \<Rightarrow> (catch_id TypeError, d)
                    | Some usr \<Rightarrow>
                        (let newComment = \<lparr>comment_id = new_id, comment_user = caller,
                                            comment_text = body_text text,
                                            comment_name = user_name usr,
                                            comment_avatar = user_avatar usr,
                                            comment_date = now\<rparr>;
                             p' = p\<lparr>comments := newComment # comments p\<rparr>
                         in ((200, CommentsJson (comments p')), save p' d)))))"

text \<open>\<open>DELETE api/posts/comment/:id/:comment_id\<close>.\<close>

definition removeIndex_comment :: "post \<Rightarrow> object_id \<Rightarrow> int" where
  "removeIndex_comment p caller = indexOf (map comment_user (comments p)) caller"

definition delete_comment :: "object_id \<Rightarrow> string \<Rightarrow> string \<Rightarrow> db \<Rightarrow> response \<times> db" where
  "delete_comment caller ident cid d =
     (case findById post_id (posts d) ident of
        Inl e \<Rightarrow> (catch_id e, d)
      | Inr None \<Rightarrow> (post_not_found, d)
      | Inr (Some p) \<Rightarrow>
          (case find (\<lambda>c. comment_id c = cid) (comments p) of
             None \<Rightarrow> ((400, Msg ''Comment Does Not Exist''), d)
           | Some c \<Rightarrow>
               (if comment_user c \<noteq> caller then ((401, Msg ''User Not Authorized''), d)
                else (let removeIndex = removeIndex_comment p caller;
                          p' = p\<lparr>comments := splice (comments p) removeIndex 1\<rparr>
                      in ((200, Msg ''Comment Deleted''), save p' d)))))"

section \<open>The invariant of the likes\<close>

text \<open>Each user's id occurs at most once in the like sequence of a post.\<close>

definition likes_unique :: "post \<Rightarrow> bool" where
  "likes_unique p = distinct (map like_user (likes p))"

definition invariant :: "db \<Rightarrow> bool" where
  "invariant d = list_all likes_unique (posts d)"

section \<open>A small store\<close>

text \<open>
  Two users and one post of Alice's, liked by Bob, with two comments of Bob's (the
  newer one first). The theorems below are run on it. Carol's id is the id of no user
  of the store: a caller whose account is gone while her token still holds.
\<close>

definition alice_id :: object_id where
  "alice_id = ''0000000000000000000000a1''"

definition bob_id :: object_id where
  "bob_id = ''0000000000000000000000b2''"

definition carol_id :: object_id where
  "carol_id = ''0000000000000000000000c3''"

definition pid0 :: object_id where
  "pid0 = ''0000000000000000000000d4''"

definition pid1 :: object_id where
  "pid1 = ''0000000000000000000000d5''"

definition cid1 :: object_id where
  "cid1 = ''0000000000000000000000e5''"

definition cid2 :: object_id where
  "cid2 = ''0000000000000000000000f6''"

definition alice :: user where
  "alice = \<lparr>user_id = alice_id, user_name = ''Alice'', user_avatar = ''alice.png''\<rparr>"

definition bob :: user where
  "bob = \<lparr>user_id = bob_id, user_name = ''Bob'', user_avatar = ''bob.png''\<rparr>"

definition comment1 :: comment where
  "comment1 = \<lparr>comment_id = cid1, comment_user = bob_id, comment_text = ''later'',
               comment_name = ''Bob'', comment_avatar = ''bob.png'', comment_date = 3\<rparr>"

definition comment2 :: comment where
  "comment2 = \<lparr>comment_id = cid2, comment_user = bob_id, comment_text = ''earlier'',
               comment_name = ''Bob'', comment_avatar = ''bob.png'', comment_date = 2\<rparr>"

definition post0 :: post where
  "post0 = \<lparr>post_id = pid0, post_user = alice_id, post_text = ''hello'',
            post_name = ''Alice'', post_avatar = ''alice.png'',
            likes = [\<lparr>like_user = bob_id\<rparr>], comments = [comment1, comment2],
            post_date = 1\<rparr>"

definition db0 :: db where
  "db0 = \<lparr>users = [alice, bob], posts = [post0]\<rparr>"

lemmas store_defs = alice_id_def bob_id_def carol_id_def pid0_def pid1_def cid1_def cid2_def alice_def
  bob_def comment1_def comment2_def post0_def db0_def

section \<open>Lemmas on the array methods and the store\<close>

lemma indexOf_ge: "- 1 \<le> indexOf xs x"
  by (induction xs) (auto simp: Let_def)

lemma indexOf_absent: "x \<notin> set xs \<Longrightarrow> indexOf xs x = - 1"
  by (induction xs) (auto simp: Let_def)

lemma indexOf_present:
  "x \<in> set xs \<Longrightarrow> 0 \<le> indexOf xs x \<and> indexOf xs x < int (length xs) \<and> xs ! nat (indexOf xs x) = x"
proof (induction xs)
  case Nil
  then show ?case by simp
next
  case (Cons y ys)
  show ?case
  proof (cases "y = x")
    case True
    then show ?thesis by simp
  next
    case False
    with Cons.prems have "x \<in> set ys" by simp
    from Cons.IH [OF this] False show ?thesis
      by (simp add: Let_def nat_add_distrib)
  qed
qed

lemma indexOf_remove1:
  "x \<in> set xs \<Longrightarrow> take (nat (indexOf xs x)) xs @ drop (Suc (nat (indexOf xs x))) xs = remove1 x xs"
proof (induction xs)
  case Nil
  then show ?case by simp
next
  case (Cons y ys)
  show ?case
  proof (cases "y = x")
    case True
    then show ?thesis by simp
  next
    case False
    with Cons.prems have mem: "x \<in> set ys" by simp
    from indexOf_present [OF mem] have "0 \<le> indexOf ys x" by simp
    with Cons.IH [OF mem] False show ?thesis
      by (simp add: Let_def nat_add_distrib)
  qed
qed

lemma splice_one:
  "0 \<le> i \<Longrightarrow> i < int (length xs) \<Longrightarrow> splice xs i 1 = take (nat i) xs @ drop (Suc (nat i)) xs"
  by (simp add: splice_def Let_def nat_add_distrib min_def max_def)

lemma splice_map: "map f (splice xs i c) = splice (map f xs) i c"
  by (simp add: splice_def Let_def take_map drop_map)

lemma find_save:
  "find (\<lambda>q. post_id q = k) xs = Some p \<Longrightarrow> post_id p' = post_id p \<Longrightarrow>
   find (\<lambda>q. post_id q = k) (map (\<lambda>q. if post_id q = post_id p' then p' else q) xs) = Some p'"
  by (induction xs) (auto split: if_splits)

lemma findById_save:
  assumes "findById post_id (posts d) ident = Inr (Some p)" and "post_id p' = post_id p"
  shows "findById post_id (posts (save p' d)) ident = Inr (Some p')"
proof -
  from assms(1) obtain k where k: "castObjectId ident = Some k"
    and f: "find (\<lambda>q. post_id q = k) (posts d) = Some p"
    by (auto simp: findById_def split: option.splits)
  from find_save [OF f assms(2)] k show ?thesis
    by (simp add: findById_def save_def)
qed

lemma findById_mem:
  "findById key coll ident = Inr (Some p) \<Longrightarrow> p \<in> set coll"
  by (auto simp: findById_def find_Some_iff split: option.splits)

lemma not_liked_iff:
  "(filter (\<lambda>l. like_user l = caller) ls = []) = (caller \<notin> like_user ` set ls)"
  by (auto simp: filter_empty_conv)

lemma like_mem: "(\<lparr>like_user = caller\<rparr> \<in> set ls) = (caller \<in> like_user ` set ls)"
proof
  assume "\<lparr>like_user = caller\<rparr> \<in> set ls"
  then have "like_user \<lparr>like_user = caller\<rparr> \<in> like_user ` set ls" by (rule imageI)
  then show "caller \<in> like_user ` set ls" by simp
next
  assume "caller \<in> like_user ` set ls"
  then obtain l where l: "l \<in> set ls" and c: "caller = like_user l" by auto
  have eq: "\<lparr>like_user = like_user l\<rparr> = l" by (cases l) simp
  from l show "\<lparr>like_user = caller\<rparr> \<in> set ls" unfolding c eq .
qed

lemma invariant_save: "invariant d \<Longrightarrow> likes_unique p' \<Longrightarrow> invariant (save p' d)"
  by (auto simp: invariant_def save_def list_all_iff)

lemma invariant_found:
  "invariant d \<Longrightarrow> findById post_id (posts d) ident = Inr (Some p) \<Longrightarrow> likes_unique p"
  by (auto simp: invariant_def list_all_iff dest: findById_mem)

lemma splice_indexOf:
  assumes "x \<in> set xs"
  shows "splice xs (indexOf xs x) 1 = remove1 x xs"
  using indexOf_present [OF assms] indexOf_remove1 [OF assms] by (simp add: splice_one)

lemma indexOf_map_inj: "inj f \<Longrightarrow> indexOf (map f xs) (f x) = indexOf xs x"
  by (induction xs) (auto simp: inj_eq)

lemma inj_like_user: "inj (like_user :: like \<Rightarrow> object_id)"
  by (rule injI) simp

lemma unlike_likes:
  assumes "caller \<in> like_user ` set ls"
  shows "splice ls (indexOf (map like_user ls) caller) 1 = remove1 \<lparr>like_user = caller\<rparr> ls"
proof -
  let ?l = "\<lparr>like_user = caller\<rparr>"
  from assms have mem: "?l \<in> set ls" by (simp only: like_mem)
  have "indexOf (map like_user ls) (like_user ?l) = indexOf ls ?l"
    by (rule indexOf_map_inj [OF inj_like_user])
  with splice_indexOf [OF mem] show ?thesis by simp
qed

lemma distinct_take_drop:
  assumes "distinct xs" and "s \<le> t"
  shows "distinct (take s xs @ drop t xs)"
proof -
  from assms(1) have "distinct (take s xs @ drop s xs)" by simp
  then have "set (take s xs) \<inter> set (drop s xs) = {}" and "distinct (take s xs)"
    by (simp_all only: distinct_append)
  moreover from assms(2) have "set (drop t xs) \<subseteq> set (drop s xs)"
    by (rule set_drop_subset_set_drop)
  ultimately show ?thesis
    using assms(1) by (auto simp: distinct_drop)
qed

lemma distinct_splice: "distinct xs \<Longrightarrow> distinct (splice xs i c)"
  unfolding splice_def Let_def by (rule distinct_take_drop) auto

lemma like_post_liked:
  assumes "findById post_id (posts d) ident = Inr (Some p)"
    and "caller \<in> like_user ` set (likes p)"
  shows "like_post caller ident d = ((400, Msg ''Post Already Liked''), d)"
  using assms by (simp add: like_post_def not_liked_iff)

lemma like_post_fresh:
  assumes "findById post_id (posts d) ident = Inr (Some p)"
    and "caller \<notin> like_user ` set (likes p)"
  shows "like_post caller ident d =
    ((200, LikesJson (\<lparr>like_user = caller\<rparr> # likes p)),
     save (p\<lparr>likes := \<lparr>like_user = caller\<rparr> # likes p\<rparr>) d)"
  using assms by (simp add: like_post_def not_liked_iff Let_def)

lemma unlike_post_absent:
  assumes "findById post_id (posts d) ident = Inr (Some p)"
    and "caller \<notin> like_user ` set (likes p)"
  shows "unlike_post caller ident d = ((400, Msg ''Post has not yet been liked''), d)"
  using assms by (simp add: unlike_post_def not_liked_iff)

lemma unlike_post_present:
  assumes "findById post_id (posts d) ident = Inr (Some p)"
    and "caller \<in> like_user ` set (likes p)"
  shows "unlike_post caller ident d =
    ((200, Msg ''Unlike Post''), save (p\<lparr>likes := remove1 \<lparr>like_user = caller\<rparr> (likes p)\<rparr>) d)"
  using assms unlike_likes [OF assms(2)]
  by (simp add: unlike_post_def not_liked_iff Let_def del: image_eqI)

lemma delete_comment_own:
  assumes "findById post_id (posts d) ident = Inr (Some p)"
    and "find (\<lambda>c. comment_id c = cid) (comments p) = Some c"
    and "comment_user c = caller"
  shows "delete_comment caller ident cid d =
    ((200, Msg ''Comment Deleted''),
     save (p\<lparr>comments := splice (comments p) (removeIndex_comment p caller) 1\<rparr>) d)"
  using assms by (simp add: delete_comment_def Let_def)

lemma removeIndex_comment_valid:
  assumes "find (\<lambda>c. comment_id c = cid) (comments p) = Some c"
    and "comment_user c = caller"
  shows "0 \<le> removeIndex_comment p caller"
    and "removeIndex_comment p caller < int (length (comments p))"
    and "comment_user (comments p ! nat (removeIndex_comment p caller)) = caller"
proof -
  from assms(1) have "c \<in> set (comments p)"
    by (auto simp: find_Some_iff)
  with assms(2) have mem: "caller \<in> set (map comment_user (comments p))" by auto
  from indexOf_present [OF mem]
  have r: "0 \<le> removeIndex_comment p caller"
    "removeIndex_comment p caller < int (length (comments p))"
    and n: "map comment_user (comments p) ! nat (removeIndex_comment p caller) = caller"
    by (simp_all add: removeIndex_comment_def)
  from r show "0 \<le> removeIndex_comment p caller"
    and "removeIndex_comment p caller < int (length (comments p))" by simp_all
  from r have "nat (removeIndex_comment p caller) < length (comments p)" by simp
  from nth_map [OF this, of comment_user] n
  show "comment_user (comments p ! nat (removeIndex_comment p caller)) = caller" by simp
qed

lemma filter_drop_nth:
  assumes "i < length xs" and "\<not> P (xs ! i)"
  shows "filter P (take i xs @ drop (Suc i) xs) = filter P xs"
proof -
  from assms(1) have "xs = take i xs @ xs ! i # drop (Suc i) xs"
    by (rule id_take_nth_drop)
  then have "filter P xs = filter P (take i xs @ xs ! i # drop (Suc i) xs)" by simp
  also from assms(2) have "\<dots> = filter P (take i xs @ drop (Suc i) xs)" by simp
  finally show ?thesis by simp
qed

lemma likes_unique_comments [simp]: "likes_unique (p\<lparr>comments := cs\<rparr>) = likes_unique p"
  by (simp add: likes_unique_def)

lemma invariant_like: "invariant d \<Longrightarrow> invariant (snd (like_post caller ident d))"
proof -
  assume inv: "invariant d"
  show ?thesis
  proof (cases "findById post_id (posts d) ident")
    case (Inl e)
    with inv show ?thesis by (simp add: like_post_def)
  next
    case (Inr r)
    show ?thesis
    proof (cases r)
      case None
      with Inr inv show ?thesis by (simp add: like_post_def)
    next
      case (Some p)
      with Inr have found: "findById post_id (posts d) ident = Inr (Some p)" by simp
      from invariant_found [OF inv found] have u: "distinct (map like_user (likes p))"
        by (simp add: likes_unique_def)
      show ?thesis
      proof (cases "caller \<in> like_user ` set (likes p)")
        case True
        from like_post_liked [OF found True] inv show ?thesis by simp
      next
        case False
        with u have "likes_unique (p\<lparr>likes := \<lparr>like_user = caller\<rparr> # likes p\<rparr>)"
          by (simp add: likes_unique_def)
        from invariant_save [OF inv this] like_post_fresh [OF found False]
        show ?thesis by simp
      qed
    qed
  qed
qed

lemma invariant_unlike: "invariant d \<Longrightarrow> invariant (snd (unlike_post caller ident d))"
proof -
  assume inv: "invariant d"
  show ?thesis
  proof (cases "findById post_id (posts d) ident")
    case (Inl e)
    with inv show ?thesis by (simp add: unlike_post_def)
  next
    case (Inr r)
    show ?thesis
    proof (cases r)
      case None
      with Inr inv show ?thesis by (simp add: unlike_post_def)
    next
      case (Some p)
      with Inr have found: "findById post_id (posts d) ident = Inr (Some p)" by simp
      from invariant_found [OF inv found] have u: "distinct (map like_user (likes p))"
        by (simp add: likes_unique_def)
      have "likes_unique (p\<lparr>likes := splice (likes p) i 1\<rparr>)" for i
        using distinct_splice [OF u, of i 1] by (simp add: likes_unique_def splice_map)
      from invariant_save [OF inv this] found inv show ?thesis
        by (simp add: unlike_post_def Let_def)
    qed
  qed
qed

lemma invariant_add_comment:
  "invariant d \<Longrightarrow> invariant (snd (add_comment caller ident text new_id now d))"
proof -
  assume inv: "invariant d"
  have "invariant (save (p\<lparr>comments := cs\<rparr>) d)"
    if "findById post_id (posts d) ident = Inr (Some p)" for p cs
    using invariant_save [OF inv, of "p\<lparr>comments := cs\<rparr>"] invariant_found [OF inv that]
    by simp
  with inv show ?thesis
    by (simp add: add_comment_def Let_def split: sum.splits option.splits)
qed

lemma invariant_delete_comment:
  "invariant d \<Longrightarrow> invariant (snd (delete_comment caller ident cid d))"
proof -
  assume inv: "invariant d"
  have "invariant (save (p\<lparr>comments := cs\<rparr>) d)"
    if "findById post_id (posts d) ident = Inr (Some p)" for p cs
    using invariant_save [OF inv, of "p\<lparr>comments := cs\<rparr>"] invariant_found [OF inv that]
    by simp
  with inv show ?thesis
    by (simp add: delete_comment_def Let_def split: sum.splits option.splits)
qed

lemma cast_pid0: "castObjectId pid0 = Some pid0"
  by (simp add: castObjectId_def hexDigit_def pid0_def)

lemma cast_twelve: "castObjectId ''abcdefghijkl'' = Some ''6162636465666768696a6b6c''"
  by (simp add: castObjectId_def hexByte_def)

lemma found_post0: "findById post_id (posts db0) pid0 = Inr (Some post0)"
  by (simp add: findById_def cast_pid0) (simp add: db0_def post0_def)

lemma found_alice: "findById user_id (users db0) alice_id = Inr (Some alice)"
  by (simp add: findById_def castObjectId_def hexDigit_def db0_def alice_def alice_id_def)

lemma invariant_db0: "invariant db0"
  by (simp add: invariant_def likes_unique_def db0_def post0_def)

section \<open>Deleting a comment\<close>

text \<open>
  C1. When deleting a comment succeeds, the comment removed should be the one with the
  given comment id, every other comment staying. The route finds the comment by its id
  and checks its author, but then removes the first comment of the caller, found by
  the caller's id. On the post of the small store Bob deletes his earlier comment
  \<open>comment2\<close>: the route answers 200, removes \<open>comment1\<close>, and \<open>comment2\<close> stays.
\<close>

theorem delete_comment_removes_first_of_caller:
  "find (\<lambda>c. comment_id c = cid2) (comments post0) = Some comment2 \<and>
   delete_comment bob_id pid0 cid2 db0 =
     ((200, Msg ''Comment Deleted''), db0\<lparr>posts := [post0\<lparr>comments := [comment2]\<rparr>]\<rparr>)"
proof -
  have c: "find (\<lambda>c. comment_id c = cid2) (comments post0) = Some comment2"
    by (simp add: post0_def comment1_def comment2_def cid1_def cid2_def)
  have u: "comment_user comment2 = bob_id"
    by (simp add: comment2_def)
  have r: "removeIndex_comment post0 bob_id = 0"
    by (simp add: removeIndex_comment_def post0_def comment1_def)
  have s: "splice (comments post0) 0 1 = [comment2]"
    by (simp add: splice_def post0_def)
  from delete_comment_own [OF found_post0 c u] r s c show ?thesis
    by (simp add: save_def) (simp add: db0_def)
qed

text \<open>
  C10. When deleting a comment reaches the removal (the comment with the given id exists
  and is the caller's), the remove index is a position of the comment sequence (never
  \<open>-1\<close>), the comment at it is the caller's, exactly that one comment is removed, and
  the comments of the other users are what they were.
\<close>

theorem delete_comment_removes_callers:
  assumes "findById post_id (posts d) ident = Inr (Some p)"
    and "find (\<lambda>c. comment_id c = cid) (comments p) = Some c"
    and "comment_user c = caller"
  shows "0 \<le> removeIndex_comment p caller \<and>
         removeIndex_comment p caller < int (length (comments p)) \<and>
         comment_user (comments p ! nat (removeIndex_comment p caller)) = caller \<and>
         (let i = nat (removeIndex_comment p caller);
              p' = p\<lparr>comments := take i (comments p) @ drop (Suc i) (comments p)\<rparr>
          in delete_comment caller ident cid d = ((200, Msg ''Comment Deleted''), save p' d) \<and>
             findById post_id (posts (save p' d)) ident = Inr (Some p') \<and>
             length (comments p') + 1 = length (comments p) \<and>
             filter (\<lambda>c. comment_user c \<noteq> caller) (comments p') =
               filter (\<lambda>c. comment_user c \<noteq> caller) (comments p))"
proof -
  let ?r = "removeIndex_comment p caller"
  let ?i = "nat ?r"
  let ?cs = "take ?i (comments p) @ drop (Suc ?i) (comments p)"
  let ?p' = "p\<lparr>comments := ?cs\<rparr>"
  note v = removeIndex_comment_valid [OF assms(2,3)]
  from v(1,2) have i: "?i < length (comments p)" by simp
  from v(1,2) have s: "splice (comments p) ?r 1 = ?cs" by (rule splice_one)
  from delete_comment_own [OF assms] s
  have run: "delete_comment caller ident cid d = ((200, Msg ''Comment Deleted''), save ?p' d)"
    by simp
  have found: "findById post_id (posts (save ?p' d)) ident = Inr (Some ?p')"
    by (rule findById_save [OF assms(1)]) simp
  from i have len: "length ?cs + 1 = length (comments p)" by simp
  from v(3) have "filter (\<lambda>c. comment_user c \<noteq> caller) ?cs =
      filter (\<lambda>c. comment_user c \<noteq> caller) (comments p)"
    by (intro filter_drop_nth [OF i]) simp
  with v run found len show ?thesis by (simp add: Let_def)
qed

theorem delete_comment_removes_callers_witness:
  "findById post_id (posts db0) pid0 = Inr (Some post0) \<and>
   find (\<lambda>c. comment_id c = cid1) (comments post0) = Some comment1 \<and>
   comment_user comment1 = bob_id \<and>
   removeIndex_comment post0 bob_id = 0 \<and>
   delete_comment bob_id pid0 cid1 db0 =
     ((200, Msg ''Comment Deleted''), save (post0\<lparr>comments := [comment2]\<rparr>) db0)"
proof -
  have c: "find (\<lambda>c. comment_id c = cid1) (comments post0) = Some comment1"
    by (simp add: post0_def comment1_def)
  have u: "comment_user comment1 = bob_id"
    by (simp add: comment1_def)
  have r: "removeIndex_comment post0 bob_id = 0"
    by (simp add: removeIndex_comment_def post0_def comment1_def)
  have cs: "comments post0 = [comment1, comment2]"
    by (simp add: post0_def)
  from delete_comment_removes_callers [OF found_post0 c u] found_post0 c u r cs
  show ?thesis by (simp add: Let_def)
qed

section \<open>Likes\<close>

text \<open>
  C2. If each user's id occurs at most once in the like sequence of every post, then it
  still does after like, unlike, delete-comment and add-comment, whatever their
  arguments and whatever they answer.
\<close>

theorem likes_unique_preserved:
  assumes "invariant d"
  shows "invariant (snd (like_post caller ident d)) \<and>
         invariant (snd (unlike_post caller ident d)) \<and>
         invariant (snd (delete_comment caller ident cid d)) \<and>
         invariant (snd (add_comment caller ident text new_id now d))"
  using assms
  by (simp add: invariant_like invariant_unlike invariant_delete_comment invariant_add_comment)

theorem likes_unique_preserved_witness:
  "invariant db0 \<and>
   invariant (snd (like_post alice_id pid0 db0)) \<and>
   invariant (snd (unlike_post bob_id pid0 db0)) \<and>
   invariant (snd (delete_comment bob_id pid0 cid1 db0)) \<and>
   invariant (snd (add_comment alice_id pid0 (Some ''hi'') cid1 4 db0))"
  using likes_unique_preserved [OF invariant_db0] invariant_db0 by simp

text \<open>
  C3. On an existing post whose like sequence has each user at most once and which the
  caller has not liked, like followed by unlike by the same caller both succeed and
  leave the post, and so its like sequence, as it was before the like.
\<close>

theorem like_then_unlike:
  assumes "findById post_id (posts d) ident = Inr (Some p)"
    and "likes_unique p"
    and "caller \<notin> like_user ` set (likes p)"
  shows "fst (like_post caller ident d) = (200, LikesJson (\<lparr>like_user = caller\<rparr> # likes p)) \<and>
         fst (unlike_post caller ident (snd (like_post caller ident d))) = (200, Msg ''Unlike Post'') \<and>
         findById post_id (posts (snd (unlike_post caller ident (snd (like_post caller ident d))))) ident
           = Inr (Some p)"
proof -
  let ?p' = "p\<lparr>likes := \<lparr>like_user = caller\<rparr> # likes p\<rparr>"
  let ?d1 = "save ?p' d"
  have l: "like_post caller ident d = ((200, LikesJson (\<lparr>like_user = caller\<rparr> # likes p)), ?d1)"
    by (rule like_post_fresh [OF assms(1,3)])
  have f1: "findById post_id (posts ?d1) ident = Inr (Some ?p')"
    by (rule findById_save [OF assms(1)]) simp
  have "caller \<in> like_user ` set (likes ?p')" by simp
  from unlike_post_present [OF f1 this]
  have u: "unlike_post caller ident ?d1 = ((200, Msg ''Unlike Post''), save p ?d1)"
    by simp
  have f2: "findById post_id (posts (save p ?d1)) ident = Inr (Some p)"
    by (rule findById_save [OF f1]) simp
  from l u f2 show ?thesis by simp
qed

theorem like_then_unlike_witness:
  "findById post_id (posts db0) pid0 = Inr (Some post0) \<and> likes_unique post0 \<and>
   alice_id \<notin> like_user ` set (likes post0) \<and>
   fst (like_post alice_id pid0 db0) =
     (200, LikesJson [\<lparr>like_user = alice_id\<rparr>, \<lparr>like_user = bob_id\<rparr>]) \<and>
   findById post_id
     (posts (snd (unlike_post alice_id pid0 (snd (like_post alice_id pid0 db0))))) pid0 =
     Inr (Some post0)"
proof -
  have u: "likes_unique post0"
    by (simp add: likes_unique_def post0_def)
  have n: "alice_id \<notin> like_user ` set (likes post0)"
    by (simp add: post0_def alice_id_def bob_id_def)
  have l: "likes post0 = [\<lparr>like_user = bob_id\<rparr>]"
    by (simp add: post0_def)
  from like_then_unlike [OF found_post0 u n] found_post0 u n l show ?thesis
    by simp
qed

text \<open>
  C4. On an existing post, unlike by a caller with no like on it answers 400 "Post has
  not yet been liked" and leaves the store as it is; otherwise it answers 200 and stores
  the post with the first like of the caller removed: one like less, the likes of
  every other user in place, and under the invariant no like of the caller left.
\<close>

theorem unlike_post_spec:
  assumes "findById post_id (posts d) ident = Inr (Some p)"
  shows "(caller \<notin> like_user ` set (likes p) \<longrightarrow>
            unlike_post caller ident d = ((400, Msg ''Post has not yet been liked''), d)) \<and>
         (caller \<in> like_user ` set (likes p) \<longrightarrow>
            (let p' = p\<lparr>likes := remove1 \<lparr>like_user = caller\<rparr> (likes p)\<rparr>
             in unlike_post caller ident d = ((200, Msg ''Unlike Post''), save p' d) \<and>
                findById post_id (posts (save p' d)) ident = Inr (Some p') \<and>
                length (likes p') + 1 = length (likes p) \<and>
                filter (\<lambda>l. like_user l \<noteq> caller) (likes p') =
                  filter (\<lambda>l. like_user l \<noteq> caller) (likes p) \<and>
                (likes_unique p \<longrightarrow> caller \<notin> like_user ` set (likes p'))))"
proof -
  let ?l = "\<lparr>like_user = caller\<rparr>"
  let ?p' = "p\<lparr>likes := remove1 ?l (likes p)\<rparr>"
  have no: "caller \<notin> like_user ` set (likes p) \<Longrightarrow>
      unlike_post caller ident d = ((400, Msg ''Post has not yet been liked''), d)"
    using assms by (simp add: unlike_post_def not_liked_iff)
  have found: "findById post_id (posts (save ?p' d)) ident = Inr (Some ?p')"
    by (rule findById_save [OF assms]) simp
  have others: "filter (\<lambda>l. like_user l \<noteq> caller) (remove1 ?l ls) =
      filter (\<lambda>l. like_user l \<noteq> caller) ls" for ls
    by (induction ls) auto
  have yes: "unlike_post caller ident d = ((200, Msg ''Unlike Post''), save ?p' d)"
    and len: "length (likes ?p') + 1 = length (likes p)"
    if liked: "caller \<in> like_user ` set (likes p)"
  proof -
    from liked have mem: "?l \<in> set (likes p)" by (simp only: like_mem)
    show "unlike_post caller ident d = ((200, Msg ''Unlike Post''), save ?p' d)"
      using assms liked unlike_likes [OF liked]
      by (simp add: unlike_post_def not_liked_iff Let_def del: image_eqI)
    from mem show "length (likes ?p') + 1 = length (likes p)"
      by (simp add: length_remove1) (cases "likes p", auto)
  qed
  have gone: "caller \<notin> like_user ` set (remove1 ?l (likes p))" if "likes_unique p"
  proof -
    from that have "distinct (likes p)"
      by (simp add: likes_unique_def distinct_map)
    then have "?l \<notin> set (remove1 ?l (likes p))" by simp
    then show ?thesis unfolding like_mem .
  qed
  from no found others yes len gone show ?thesis
    by (simp add: Let_def)
qed

theorem unlike_post_spec_witness:
  "findById post_id (posts db0) pid0 = Inr (Some post0) \<and>
   alice_id \<notin> like_user ` set (likes post0) \<and>
   unlike_post alice_id pid0 db0 = ((400, Msg ''Post has not yet been liked''), db0) \<and>
   bob_id \<in> like_user ` set (likes post0) \<and>
   unlike_post bob_id pid0 db0 = ((200, Msg ''Unlike Post''), save (post0\<lparr>likes := []\<rparr>) db0)"
proof -
  have l: "likes post0 = [\<lparr>like_user = bob_id\<rparr>]"
    by (simp add: post0_def)
  have n: "alice_id \<noteq> bob_id"
    by (simp add: alice_id_def bob_id_def)
  from unlike_post_spec [OF found_post0, of alice_id] unlike_post_spec [OF found_post0, of bob_id]
    found_post0 l n
  show ?thesis by (simp add: Let_def)
qed

text \<open>
  C5. On an existing post, like by a caller who has a like on it answers 400 "Post
  Already Liked" and leaves the store as it is; otherwise it answers 200 with the like
  sequence, the caller's like put at its head, and stores the post with that sequence.
\<close>

theorem like_post_spec:
  assumes "findById post_id (posts d) ident = Inr (Some p)"
  shows "(caller \<in> like_user ` set (likes p) \<longrightarrow>
            like_post caller ident d = ((400, Msg ''Post Already Liked''), d)) \<and>
         (caller \<notin> like_user ` set (likes p) \<longrightarrow>
            (let p' = p\<lparr>likes := \<lparr>like_user = caller\<rparr> # likes p\<rparr>
             in like_post caller ident d = ((200, LikesJson (\<lparr>like_user = caller\<rparr> # likes p)), save p' d) \<and>
                findById post_id (posts (save p' d)) ident = Inr (Some p')))"
  using assms findById_save [OF assms, of "p\<lparr>likes := \<lparr>like_user = caller\<rparr> # likes p\<rparr>"]
  by (simp add: like_post_def not_liked_iff Let_def)

theorem like_post_spec_witness:
  "findById post_id (posts db0) pid0 = Inr (Some post0) \<and>
   bob_id \<in> like_user ` set (likes post0) \<and>
   like_post bob_id pid0 db0 = ((400, Msg ''Post Already Liked''), db0) \<and>
   alice_id \<notin> like_user ` set (likes post0) \<and>
   like_post alice_id pid0 db0 =
     ((200, LikesJson [\<lparr>like_user = alice_id\<rparr>, \<lparr>like_user = bob_id\<rparr>]),
      save (post0\<lparr>likes := [\<lparr>like_user = alice_id\<rparr>, \<lparr>like_user = bob_id\<rparr>]\<rparr>) db0)"
proof -
  have l: "likes post0 = [\<lparr>like_user = bob_id\<rparr>]"
    by (simp add: post0_def)
  have n: "alice_id \<noteq> bob_id"
    by (simp add: alice_id_def bob_id_def)
  from like_post_spec [OF found_post0, of bob_id] like_post_spec [OF found_post0, of alice_id]
    found_post0 l n
  show ?thesis by (simp add: Let_def)
qed

section \<open>Posts\<close>

text \<open>
  C6. On an existing post, delete by a caller who is not its author answers 401 "User
  Not Authorized" and leaves the store as it is: the post is still found under its id,
  with the text, likes and comments it had.
\<close>

theorem delete_post_unauthorized:
  assumes "findById post_id (posts d) ident = Inr (Some p)" and "post_user p \<noteq> caller"
  shows "delete_post caller ident d = ((401, Msg ''User Not Authorized''), d) \<and>
         findById post_id (posts (snd (delete_post caller ident d))) ident = Inr (Some p)"
  using assms by (simp add: delete_post_def)

theorem delete_post_unauthorized_witness:
  "findById post_id (posts db0) pid0 = Inr (Some post0) \<and> post_user post0 \<noteq> bob_id \<and>
   delete_post bob_id pid0 db0 = ((401, Msg ''User Not Authorized''), db0)"
proof -
  have n: "post_user post0 \<noteq> bob_id"
    by (simp add: post0_def alice_id_def bob_id_def)
  from delete_post_unauthorized [OF found_post0 n] found_post0 n show ?thesis
    by simp
qed

text \<open>
  C7, as the route has it. Create with an empty (or absent) text answers 400 with the
  validation error and leaves the store as it is. With a non-empty text, when the
  caller is a user of the store, it answers 200 with the new post, which has the text,
  the caller as author, the caller's name and avatar, no like and no comment, and adds
  that post to the collection.
\<close>

theorem create_post_spec:
  "(isEmpty text \<longrightarrow>
      create_post caller text new_id now d = ((400, Errors [''Text is required'']), d)) \<and>
   (\<not> isEmpty text \<longrightarrow> findById user_id (users d) caller = Inr (Some u) \<longrightarrow>
      (\<exists>s. text = Some s \<and> s \<noteq> [] \<and>
        (let newPost = \<lparr>post_id = new_id, post_user = caller, post_text = s,
                        post_name = user_name u, post_avatar = user_avatar u,
                        likes = [], comments = [], post_date = now\<rparr>
         in create_post caller text new_id now d =
              ((200, PostJson newPost), d\<lparr>posts := posts d @ [newPost]\<rparr>))))"
  by (auto simp: create_post_def isEmpty_def body_text_def validation_errors_def insert_post_def
      split: option.splits)

theorem create_post_spec_witness:
  "isEmpty (Some []) \<and>
   create_post alice_id (Some []) pid1 5 db0 = ((400, Errors [''Text is required'']), db0) \<and>
   \<not> isEmpty (Some ''hi'') \<and>
   findById user_id (users db0) alice_id = Inr (Some alice) \<and>
   create_post alice_id (Some ''hi'') pid1 5 db0 =
     ((200, PostJson \<lparr>post_id = pid1, post_user = alice_id, post_text = ''hi'',
                      post_name = ''Alice'', post_avatar = ''alice.png'',
                      likes = [], comments = [], post_date = 5\<rparr>),
      db0\<lparr>posts := posts db0 @
        [\<lparr>post_id = pid1, post_user = alice_id, post_text = ''hi'',
          post_name = ''Alice'', post_avatar = ''alice.png'',
          likes = [], comments = [], post_date = 5\<rparr>]\<rparr>)"
proof -
  have e: "isEmpty (Some [])" and ne: "\<not> isEmpty (Some ''hi'')"
    by (simp_all add: isEmpty_def)
  have a: "user_name alice = ''Alice''" "user_avatar alice = ''alice.png''"
    by (simp_all add: alice_def)
  from create_post_spec [of "Some []" alice_id pid1 5 db0]
    create_post_spec [of "Some ''hi''" alice_id pid1 5 db0 alice] e ne found_alice a
  show ?thesis by (simp add: Let_def)
qed

text \<open>
  The claim as the spec has it, that create stores a post for every request with a
  non-empty text, fails for a caller with no user record: the lookup gives \<open>null\<close>,
  reading \<open>user.name\<close> throws, and the route answers 500 and stores nothing.
\<close>

theorem create_post_no_user_counterexample:
  "\<not> isEmpty (Some ''hi'') \<and>
   findById user_id (users db0) carol_id = Inr None \<and>
   create_post carol_id (Some ''hi'') pid1 5 db0 = ((500, Send ''Server Error''), db0)"
  by (simp add: create_post_def isEmpty_def findById_def castObjectId_def hexDigit_def
      server_error_def db0_def alice_def bob_def alice_id_def bob_id_def carol_id_def)

text \<open>
  C9. List answers 200 with all the posts of the collection (each as often as it is
  there), ordered by date descending, and leaves the store as it is.
\<close>

theorem list_posts_spec:
  "\<exists>ps. list_posts d = ((200, PostsJson ps), d) \<and> mset ps = mset (posts d) \<and>
        sorted_wrt (\<lambda>a b. post_date b \<le> post_date a) ps"
proof -
  have "sorted (map (\<lambda>p. - post_date p) (find_sorted d))"
    by (simp add: find_sorted_def)
  then have "sorted_wrt (\<lambda>a b. post_date b \<le> post_date a) (find_sorted d)"
    by (simp add: sorted_map)
  moreover have "mset (find_sorted d) = mset (posts d)"
    by (simp add: find_sorted_def)
  ultimately show ?thesis
    by (simp add: list_posts_def)
qed

section \<open>Malformed ids\<close>

text \<open>
  C8, as the routes have it. A post id is malformed when the cast refuses it: it is
  neither 24 hexadecimal digits nor 12 characters. With a malformed post id, get by
  id, delete, like, unlike and delete-comment answer 400 "Post Not Found" and leave the
  store as it is, and add-comment does so when its text is not empty. With an empty
  text add-comment answers 400 with the validation error and leaves the store as it
  is, whatever the id, since the text is checked before any lookup.
\<close>

theorem malformed_id_not_found:
  "(castObjectId ident = None \<longrightarrow>
      get_post ident d = ((400, Msg ''Post Not Found''), d) \<and>
      delete_post caller ident d = ((400, Msg ''Post Not Found''), d) \<and>
      like_post caller ident d = ((400, Msg ''Post Not Found''), d) \<and>
      unlike_post caller ident d = ((400, Msg ''Post Not Found''), d) \<and>
      delete_comment caller ident cid d = ((400, Msg ''Post Not Found''), d) \<and>
      (\<not> isEmpty text \<longrightarrow>
         add_comment caller ident text new_id now d = ((400, Msg ''Post Not Found''), d))) \<and>
   (isEmpty text \<longrightarrow>
      add_comment caller ident text new_id now d = ((400, Errors [''Text is required'']), d))"
  by (simp add: get_post_def delete_post_def like_post_def unlike_post_def delete_comment_def
      add_comment_def findById_def catch_id_def post_not_found_def validation_errors_def
      split: option.splits)

theorem malformed_id_not_found_witness:
  "castObjectId ''xyz'' = None \<and> \<not> isEmpty (Some ''hi'') \<and>
   get_post ''xyz'' db0 = ((400, Msg ''Post Not Found''), db0) \<and>
   delete_post alice_id ''xyz'' db0 = ((400, Msg ''Post Not Found''), db0) \<and>
   like_post alice_id ''xyz'' db0 = ((400, Msg ''Post Not Found''), db0) \<and>
   unlike_post alice_id ''xyz'' db0 = ((400, Msg ''Post Not Found''), db0) \<and>
   delete_comment alice_id ''xyz'' cid1 db0 = ((400, Msg ''Post Not Found''), db0) \<and>
   add_comment alice_id ''xyz'' (Some ''hi'') cid1 4 db0 = ((400, Msg ''Post Not Found''), db0) \<and>
   isEmpty (Some []) \<and> castObjectId pid0 = Some pid0 \<and>
   add_comment alice_id pid0 (Some []) cid1 4 db0 = ((400, Errors [''Text is required'']), db0)"
proof -
  have m: "castObjectId ''xyz'' = None"
    by (simp add: castObjectId_def)
  have ne: "\<not> isEmpty (Some ''hi'')" and e: "isEmpty (Some [])"
    by (simp_all add: isEmpty_def)
  from malformed_id_not_found [of "''xyz''" db0 alice_id cid1 "Some ''hi''" cid1 4]
    malformed_id_not_found [of pid0 db0 alice_id cid1 "Some []" cid1 4]
    m ne e cast_pid0
  show ?thesis by simp
qed

text \<open>
  The claim as the spec has it, that every operation with a malformed id answers with
  the not-found signal, fails for add-comment: with the malformed id \<open>xyz\<close> and an
  empty text it answers with the validation error.
\<close>

theorem malformed_id_add_comment_counterexample:
  "castObjectId ''xyz'' = None \<and>
   add_comment alice_id ''xyz'' (Some []) cid1 4 db0 = ((400, Errors [''Text is required'']), db0) \<and>
   fst (add_comment alice_id ''xyz'' (Some []) cid1 4 db0) \<noteq> (400, Msg ''Post Not Found'')"
  by (simp add: castObjectId_def add_comment_def isEmpty_def validation_errors_def)

end
